theory Spec2Isabelle
  imports Complex_Main "HOL-Library.AList"
begin

section \<open>The scheduling model of \<open>generate_schedule\<close> (src/main.py)\<close>

text \<open>
  \<open>generate_schedule(num_flights, num_boats, num_teams, num_heats)\<close> builds a 0/1 linear
  programme with PuLP, hands it to the CBC solver with a time limit, and turns the solved
  assignment variables into a nested schedule. The four dimensions are natural numbers here:
  \<open>range(n)\<close> is \<open>[0..<n]\<close>, and the front end only passes positive integers.
\<close>

subsection \<open>Index space\<close>

text \<open>\<open>itertools.combinations(xs, 2)\<close>: all pairs of positions, in lexicographic order.\<close>

fun combinations2 :: "'a list \<Rightarrow> ('a \<times> 'a) list" where
  "combinations2 [] = []"
| "combinations2 (x # xs) = map (Pair x) xs @ combinations2 xs"

subsection \<open>Variables, linear expressions and constraints\<close>

text \<open>
  \<open>x[t][f][h][b]\<close> is \<open>X t f h b\<close> and \<open>w[(t1, t2)][f][h]\<close> is \<open>W (t1, t2) f h\<close>.
  The expressions are the ones the source writes with \<open>*\<close>, \<open>+\<close>, \<open>-\<close> and \<open>pulp.lpSum\<close>.
\<close>

datatype var = X nat nat nat nat | W "nat \<times> nat" nat nat

datatype lin =
    Var var
  | Const rat
  | Scale rat lin
  | Add lin lin
  | Sub lin lin
  | lpSum "lin list"

fun lp_value :: "(var \<Rightarrow> rat) \<Rightarrow> lin \<Rightarrow> rat" where
  "lp_value \<sigma> (Var v) = \<sigma> v"
| "lp_value \<sigma> (Const c) = c"
| "lp_value \<sigma> (Scale c e) = c * lp_value \<sigma> e"
| "lp_value \<sigma> (Add a b) = lp_value \<sigma> a + lp_value \<sigma> b"
| "lp_value \<sigma> (Sub a b) = lp_value \<sigma> a - lp_value \<sigma> b"
| "lp_value \<sigma> (lpSum es) = sum_list (map (lp_value \<sigma>) es)"

fun mentions :: "var \<Rightarrow> lin \<Rightarrow> bool" where
  "mentions v (Var u) = (u = v)"
| "mentions v (Const c) = False"
| "mentions v (Scale c e) = mentions v e"
| "mentions v (Add a b) = (mentions v a \<or> mentions v b)"
| "mentions v (Sub a b) = (mentions v a \<or> mentions v b)"
| "mentions v (lpSum es) = list_ex (mentions v) es"

datatype relation = LE | GE | EQ

datatype constraint = Constraint lin relation lin

text \<open>The constraint names, \<open>f"Boat_{b}_Flight_{f}_Heat_{h}"\<close> and the others, kept structured.\<close>

datatype cname =
    Boat_Flight_Heat nat nat nat
  | Team_Flight_Heat nat nat nat
  | W1_Flight_Heat nat nat nat nat
  | W2_Flight_Heat nat nat nat nat
  | W3_Flight_Heat nat nat nat nat
  | Team_Flight_Participation nat nat

datatype direction = LpMinimize | LpMaximize

record problem =
  direction :: direction
  binaries :: "var list"
  objective :: lin
  constraints :: "(cname \<times> constraint) list"

fun holds :: "(var \<Rightarrow> rat) \<Rightarrow> constraint \<Rightarrow> bool" where
  "holds \<sigma> (Constraint l LE r) = (lp_value \<sigma> l \<le> lp_value \<sigma> r)"
| "holds \<sigma> (Constraint l GE r) = (lp_value \<sigma> l \<ge> lp_value \<sigma> r)"
| "holds \<sigma> (Constraint l EQ r) = (lp_value \<sigma> l = lp_value \<sigma> r)"

fun constraint_mentions :: "var \<Rightarrow> constraint \<Rightarrow> bool" where
  "constraint_mentions v (Constraint l rel r) = (mentions v l \<or> mentions v r)"

text \<open>
  An assignment is feasible when every variable declared \<open>cat='Binary'\<close> is 0 or 1 and every
  constraint holds; it is feasible for the continuous relaxation when the variables only
  stay within their bounds.
\<close>

definition feasible :: "problem \<Rightarrow> (var \<Rightarrow> rat) \<Rightarrow> bool" where
  "feasible p \<sigma> \<longleftrightarrow>
     list_all (\<lambda>v. \<sigma> v = 0 \<or> \<sigma> v = 1) (binaries p) \<and>
     list_all (\<lambda>nc. holds \<sigma> (snd nc)) (constraints p)"

definition relaxed_feasible :: "problem \<Rightarrow> (var \<Rightarrow> rat) \<Rightarrow> bool" where
  "relaxed_feasible p \<sigma> \<longleftrightarrow>
     list_all (\<lambda>v. 0 \<le> \<sigma> v \<and> \<sigma> v \<le> 1) (binaries p) \<and>
     list_all (\<lambda>nc. holds \<sigma> (snd nc)) (constraints p)"

subsection \<open>The model builder and the objective (lines 11 to 72)\<close>

text \<open>
  \<open>random_weights\<close> and \<open>penalty_w\<close> are the two tables the source fills from
  \<open>random.random()\<close>; they are parameters \<open>rw\<close> and \<open>pw\<close> here.
\<close>

definition build_objective ::
  "(nat \<Rightarrow> nat \<Rightarrow> nat \<Rightarrow> nat \<Rightarrow> rat) \<Rightarrow> (nat \<times> nat \<Rightarrow> rat) \<Rightarrow>
   nat list \<Rightarrow> nat list \<Rightarrow> nat list \<Rightarrow> nat list \<Rightarrow> (nat \<times> nat) list \<Rightarrow> lin" where
  "build_objective rw pw teams flights heats boats team_pairs =
     Add (lpSum [Scale (rw t f h b) (Var (X t f h b)).
                   t \<leftarrow> teams, f \<leftarrow> flights, h \<leftarrow> heats, b \<leftarrow> boats])
         (lpSum [Scale (pw p) (Sub (Const 1) (lpSum [Var (W p f h). f \<leftarrow> flights, h \<leftarrow> heats])).
                   p \<leftarrow> team_pairs])"

definition boat_constraints :: "nat list \<Rightarrow> nat list \<Rightarrow> nat list \<Rightarrow> nat list \<Rightarrow> (cname \<times> constraint) list" where
  "boat_constraints teams flights heats boats =
     [(Boat_Flight_Heat b f h, Constraint (lpSum [Var (X t f h b). t \<leftarrow> teams]) LE (Const 1)).
        f \<leftarrow> flights, h \<leftarrow> heats, b \<leftarrow> boats]"

definition team_constraints :: "nat list \<Rightarrow> nat list \<Rightarrow> nat list \<Rightarrow> nat list \<Rightarrow> (cname \<times> constraint) list" where
  "team_constraints teams flights heats boats =
     [(Team_Flight_Heat t f h, Constraint (lpSum [Var (X t f h b). b \<leftarrow> boats]) LE (Const 1)).
        t \<leftarrow> teams, f \<leftarrow> flights, h \<leftarrow> heats]"

definition linkage :: "nat list \<Rightarrow> nat \<times> nat \<Rightarrow> nat \<Rightarrow> nat \<Rightarrow> (cname \<times> constraint) list" where
  "linkage boats p f h =
     [(W1_Flight_Heat (fst p) (snd p) f h,
         Constraint (Var (W p f h)) LE (lpSum [Var (X (fst p) f h b). b \<leftarrow> boats])),
      (W2_Flight_Heat (fst p) (snd p) f h,
         Constraint (Var (W p f h)) LE (lpSum [Var (X (snd p) f h b). b \<leftarrow> boats])),
      (W3_Flight_Heat (fst p) (snd p) f h,
         Constraint (Var (W p f h)) GE
           (Sub (Add (lpSum [Var (X (fst p) f h b). b \<leftarrow> boats])
                     (lpSum [Var (X (snd p) f h b). b \<leftarrow> boats]))
                (Const 1)))]"

definition w_constraints :: "(nat \<times> nat) list \<Rightarrow> nat list \<Rightarrow> nat list \<Rightarrow> nat list \<Rightarrow> (cname \<times> constraint) list" where
  "w_constraints team_pairs flights heats boats =
     concat [linkage boats p f h. p \<leftarrow> team_pairs, f \<leftarrow> flights, h \<leftarrow> heats]"

definition participation_constraints :: "nat list \<Rightarrow> nat list \<Rightarrow> nat list \<Rightarrow> nat list \<Rightarrow> (cname \<times> constraint) list" where
  "participation_constraints teams flights heats boats =
     [(Team_Flight_Participation t f,
         Constraint (lpSum [Var (X t f h b). h \<leftarrow> heats, b \<leftarrow> boats]) EQ (Const 1)).
        t \<leftarrow> teams, f \<leftarrow> flights]"

definition build_problem ::
  "(nat \<Rightarrow> nat \<Rightarrow> nat \<Rightarrow> nat \<Rightarrow> rat) \<Rightarrow> (nat \<times> nat \<Rightarrow> rat) \<Rightarrow> nat \<Rightarrow> nat \<Rightarrow> nat \<Rightarrow> nat \<Rightarrow> problem" where
  "build_problem rw pw num_flights num_boats num_teams num_heats =
     (let teams = [0..<num_teams];
          flights = [0..<num_flights];
          heats = [0..<num_heats];
          boats = [0..<num_boats];
          team_pairs = combinations2 teams
      in \<lparr> direction = LpMinimize,
           binaries = [X t f h b. t \<leftarrow> teams, f \<leftarrow> flights, h \<leftarrow> heats, b \<leftarrow> boats]
                    @ [W p f h. p \<leftarrow> team_pairs, f \<leftarrow> flights, h \<leftarrow> heats],
           objective = build_objective rw pw teams flights heats boats team_pairs,
           constraints = boat_constraints teams flights heats boats
                       @ team_constraints teams flights heats boats
                       @ w_constraints team_pairs flights heats boats
                       @ participation_constraints teams flights heats boats \<rparr>)"

subsection \<open>The solver and the extraction (lines 76 to 97)\<close>

text \<open>
  \<open>pulp.LpStatus\<close> has five status strings. \<open>prob.solve(solver)\<close> returns one of them and
  leaves a value, or none, in every variable; \<open>pulp.value\<close> reads it. PuLP reports a CBC run
  that stops at its time limit with an incumbent as \<open>Optimal\<close>, and one that stops without
  an integer solution as \<open>Not Solved\<close>. The values are floats in the source and exact
  rationals here; \<open>pulp.value(v) == 1\<close> is \<open>varValue r v = Some 1\<close>. The warning that
  \<open>st.warning\<close> shows before \<open>return None\<close> is not part of the result.
\<close>

datatype lp_status = Not_Solved | Optimal | Infeasible | Unbounded | Undefined

record solver_result =
  status :: lp_status
  varValue :: "var \<Rightarrow> rat option"

text \<open>
  What the function reads from outside: the two random tables, the time limit of the session
  state, and the solver command, which maps a time limit and a problem to a result.
\<close>

record env =
  random_weights :: "nat \<Rightarrow> nat \<Rightarrow> nat \<Rightarrow> nat \<Rightarrow> rat"
  penalty_w :: "nat \<times> nat \<Rightarrow> rat"
  time_limit :: nat
  PULP_CBC_CMD :: "nat \<Rightarrow> problem \<Rightarrow> solver_result"

text \<open>The heat dictionary keeps insertion order; \<open>heat_schedule[b] = t + 1\<close> is an update.\<close>

definition assign_boat :: "(var \<Rightarrow> rat option) \<Rightarrow> nat list \<Rightarrow> nat \<Rightarrow> nat \<Rightarrow> nat \<Rightarrow> (nat \<times> nat) list \<Rightarrow> (nat \<times> nat) list" where
  "assign_boat val teams f h b heat_schedule =
     fold (\<lambda>t m. if val (X t f h b) = Some 1 then AList.update b (t + 1) m else m) teams heat_schedule"

definition heat_schedule :: "(var \<Rightarrow> rat option) \<Rightarrow> nat list \<Rightarrow> nat list \<Rightarrow> nat \<Rightarrow> nat \<Rightarrow> (nat \<times> nat) list" where
  "heat_schedule val teams boats f h = fold (assign_boat val teams f h) boats []"

definition extract_schedule :: "(var \<Rightarrow> rat option) \<Rightarrow> nat \<Rightarrow> nat \<Rightarrow> nat \<Rightarrow> nat \<Rightarrow> (nat \<times> nat) list list list" where
  "extract_schedule val num_flights num_boats num_teams num_heats =
     map (\<lambda>f. map (\<lambda>h. heat_schedule val [0..<num_teams] [0..<num_boats] f h) [0..<num_heats])
         [0..<num_flights]"

definition solve :: "env \<Rightarrow> nat \<Rightarrow> nat \<Rightarrow> nat \<Rightarrow> nat \<Rightarrow> solver_result" where
  "solve e num_flights num_boats num_teams num_heats =
     PULP_CBC_CMD e (time_limit e)
       (build_problem (random_weights e) (penalty_w e) num_flights num_boats num_teams num_heats)"

definition generate_schedule :: "env \<Rightarrow> nat \<Rightarrow> nat \<Rightarrow> nat \<Rightarrow> nat \<Rightarrow> (nat \<times> nat) list list list option" where
  "generate_schedule e num_flights num_boats num_teams num_heats =
     (let result = solve e num_flights num_boats num_teams num_heats
      in if status result \<in> {Infeasible, Unbounded, Undefined} then None
         else Some (extract_schedule (varValue result) num_flights num_boats num_teams num_heats))"

text \<open>The assignment a solver result carries: the value of each variable, 0 where it has none.\<close>

definition assignment :: "solver_result \<Rightarrow> var \<Rightarrow> rat" where
  "assignment r v = (case varValue r v of Some q \<Rightarrow> q | None \<Rightarrow> 0)"

text \<open>
  A result is a solved assignment of a problem when every variable of the problem has a
  value and the values are feasible; it is a relaxed one when they are feasible for the
  continuous relaxation.
\<close>

definition solved :: "problem \<Rightarrow> solver_result \<Rightarrow> bool" where
  "solved p r \<longleftrightarrow> list_all (\<lambda>v. varValue r v \<noteq> None) (binaries p) \<and> feasible p (assignment r)"

definition relaxed_solved :: "problem \<Rightarrow> solver_result \<Rightarrow> bool" where
  "relaxed_solved p r \<longleftrightarrow>
     list_all (\<lambda>v. varValue r v \<noteq> None) (binaries p) \<and> relaxed_feasible p (assignment r)"

text \<open>How often competitor number \<open>c\<close> appears in the heat mappings of one round.\<close>

definition appearances :: "nat \<Rightarrow> (nat \<times> nat) list list \<Rightarrow> nat" where
  "appearances c flight_schedule =
     sum_list (map (\<lambda>heat. length (filter (\<lambda>e. snd e = c) heat)) flight_schedule)"

text \<open>
  An optimal solution of a problem: feasible, and no feasible assignment has a better
  objective value in the direction of the problem.
\<close>

definition optimal :: "problem \<Rightarrow> (var \<Rightarrow> rat) \<Rightarrow> bool" where
  "optimal p \<sigma> \<longleftrightarrow>
     feasible p \<sigma> \<and>
     (\<forall>\<sigma>'. feasible p \<sigma>' \<longrightarrow>
        (case direction p of
           LpMinimize \<Rightarrow> lp_value \<sigma> (objective p) \<le> lp_value \<sigma>' (objective p)
         | LpMaximize \<Rightarrow> lp_value \<sigma>' (objective p) \<le> lp_value \<sigma> (objective p)))"

text \<open>
  An assignment of a model with \<open>B\<close> boats and \<open>H\<close> heats, read in a model with more
  boats or heats: the added boats and heats stay empty.
\<close>

definition widen :: "nat \<Rightarrow> nat \<Rightarrow> (var \<Rightarrow> rat) \<Rightarrow> var \<Rightarrow> rat" where
  "widen B H \<sigma> v =
     (case v of
        X t f h b \<Rightarrow> if h < H \<and> b < B then \<sigma> v else 0
      | W p f h \<Rightarrow> if h < H then \<sigma> v else 0)"

subsection \<open>Concrete solver outcomes\<close>

text \<open>
  An environment whose weights are all zero and whose solver answers with a fixed result,
  and four results for two teams, two boats, one flight and one heat: an optimal one
  (team 1 in boat 1, team 2 in boat 0), the continuous relaxation left behind by a run
  that hit its time limit before any integer solution, a run that left a single variable
  at 1 and set nothing else, and a plain infeasibility verdict.
\<close>

definition fixed_env :: "solver_result \<Rightarrow> env" where
  "fixed_env r =
     \<lparr> random_weights = (\<lambda>t f h b. 0), penalty_w = (\<lambda>p. 0), time_limit = 300,
       PULP_CBC_CMD = (\<lambda>limit p. r) \<rparr>"

definition optimal_result :: solver_result where
  "optimal_result =
     \<lparr> status = Optimal,
       varValue = (\<lambda>v. if v = X 0 0 0 1 \<or> v = X 1 0 0 0 \<or> v = W (0, 1) 0 0 then Some 1 else Some 0) \<rparr>"

definition relaxation_result :: solver_result where
  "relaxation_result =
     \<lparr> status = Not_Solved,
       varValue = (\<lambda>v. case v of X t f h b \<Rightarrow> Some (1 / 2) | W p f h \<Rightarrow> Some 1) \<rparr>"



section \<open>Auxiliary facts\<close>

subsection \<open>Sums of expression lists and the pairs of teams\<close>

lemma sum_list_upt_sum: "sum_list (map g [0..<n]) = (\<Sum>i<n. (g i :: rat))"
  by (simp add: interv_sum_list_conv_sum_set_nat lessThan_atLeast0)

lemma sum_list_concat_rat: "sum_list (concat xss) = sum_list (map sum_list (xss :: rat list list))"
  by (induction xss) simp_all

lemma set_combinations2_upt:
  "set (combinations2 [m..<n]) = {(a, b). m \<le> a \<and> a < b \<and> b < n}"
proof (induction "n - m" arbitrary: m)
  case 0
  then show ?case by auto
next
  case (Suc k)
  then have lt: "m < n" and k: "k = n - Suc m" by auto
  have "[m..<n] = m # [Suc m..<n]" using lt by (simp add: upt_conv_Cons)
  then have "set (combinations2 [m..<n]) = Pair m ` {Suc m..<n} \<union> set (combinations2 [Suc m..<n])"
    by simp
  also have "\<dots> = Pair m ` {Suc m..<n} \<union> {(a, b). Suc m \<le> a \<and> a < b \<and> b < n}"
    using Suc.hyps(1)[OF k] by simp
  also have "\<dots> = {(a, b). m \<le> a \<and> a < b \<and> b < n}"
  proof (rule set_eqI, clarify)
    fix a b
    show "((a, b) \<in> Pair m ` {Suc m..<n} \<union> {(a, b). Suc m \<le> a \<and> a < b \<and> b < n}) =
          ((a, b) \<in> {(a, b). m \<le> a \<and> a < b \<and> b < n})"
      by (cases "a = m") auto
  qed
  finally show ?case .
qed

lemma set_team_pairs: "set (combinations2 [0..<T]) = {(a, b). a < b \<and> b < T}"
  by (simp add: set_combinations2_upt)

lemma sum_list_concat_upt:
  "sum_list (map f (concat (map g [0..<n]))) = (\<Sum>i<n. sum_list (map f (g i) :: rat list))"
  by (simp add: map_concat sum_list_concat_rat comp_def sum_list_upt_sum)

lemmas lp_sums = sum_list_upt_sum sum_list_concat_upt

lemma boat_constraints_hold:
  "list_all (\<lambda>nc. holds \<sigma> (snd nc)) (boat_constraints [0..<T] [0..<F] [0..<H] [0..<B]) \<longleftrightarrow>
     (\<forall>f<F. \<forall>h<H. \<forall>b<B. (\<Sum>t<T. \<sigma> (X t f h b)) \<le> 1)"
  by (auto simp: boat_constraints_def list_all_iff lp_sums)

lemma team_constraints_hold:
  "list_all (\<lambda>nc. holds \<sigma> (snd nc)) (team_constraints [0..<T] [0..<F] [0..<H] [0..<B]) \<longleftrightarrow>
     (\<forall>t<T. \<forall>f<F. \<forall>h<H. (\<Sum>b<B. \<sigma> (X t f h b)) \<le> 1)"
  by (auto simp: team_constraints_def list_all_iff lp_sums)

lemma participation_constraints_hold:
  "list_all (\<lambda>nc. holds \<sigma> (snd nc)) (participation_constraints [0..<T] [0..<F] [0..<H] [0..<B]) \<longleftrightarrow>
     (\<forall>t<T. \<forall>f<F. (\<Sum>h<H. \<Sum>b<B. \<sigma> (X t f h b)) = 1)"
  by (auto simp: participation_constraints_def list_all_iff lp_sums)

lemma w_constraints_hold:
  "list_all (\<lambda>nc. holds \<sigma> (snd nc)) (w_constraints (combinations2 [0..<T]) [0..<F] [0..<H] [0..<B]) \<longleftrightarrow>
     (\<forall>t1 t2. t1 < t2 \<and> t2 < T \<longrightarrow> (\<forall>f<F. \<forall>h<H.
        \<sigma> (W (t1, t2) f h) \<le> (\<Sum>b<B. \<sigma> (X t1 f h b)) \<and>
        \<sigma> (W (t1, t2) f h) \<le> (\<Sum>b<B. \<sigma> (X t2 f h b)) \<and>
        \<sigma> (W (t1, t2) f h) \<ge> (\<Sum>b<B. \<sigma> (X t1 f h b)) + (\<Sum>b<B. \<sigma> (X t2 f h b)) - 1))"
  by (auto simp: w_constraints_def linkage_def list_all_iff set_team_pairs lp_sums)


lemma binaries_all:
  "list_all P (binaries (build_problem rw pw F B T H)) \<longleftrightarrow>
     (\<forall>t<T. \<forall>f<F. \<forall>h<H. \<forall>b<B. P (X t f h b)) \<and>
     (\<forall>t1 t2. t1 < t2 \<and> t2 < T \<longrightarrow> (\<forall>f<F. \<forall>h<H. P (W (t1, t2) f h)))"
  proof -
  have "(\<forall>v\<in>(\<Union>t\<in>{0..<T}. \<Union>f\<in>{0..<F}. \<Union>h\<in>{0..<H}. X t f h ` {0..<B}). P v) \<longleftrightarrow>
        (\<forall>t<T. \<forall>f<F. \<forall>h<H. \<forall>b<B. P (X t f h b))"
    by (auto simp: ball_UN)
  moreover have "(\<forall>v\<in>(\<Union>p\<in>{(a, b). a < b \<and> b < T}. \<Union>f\<in>{0..<F}. W p f ` {0..<H}). P v) \<longleftrightarrow>
        (\<forall>t1 t2. t1 < t2 \<and> t2 < T \<longrightarrow> (\<forall>f<F. \<forall>h<H. P (W (t1, t2) f h)))"
    by (auto simp: ball_UN)
  ultimately show ?thesis
    by (simp add: build_problem_def Let_def list_all_iff set_team_pairs ball_Un)
qed

lemma constraints_all:
  "list_all (\<lambda>nc. holds \<sigma> (snd nc)) (constraints (build_problem rw pw F B T H)) \<longleftrightarrow>
     (\<forall>f<F. \<forall>h<H. \<forall>b<B. (\<Sum>t<T. \<sigma> (X t f h b)) \<le> 1) \<and>
     (\<forall>t<T. \<forall>f<F. \<forall>h<H. (\<Sum>b<B. \<sigma> (X t f h b)) \<le> 1) \<and>
     (\<forall>t1 t2. t1 < t2 \<and> t2 < T \<longrightarrow> (\<forall>f<F. \<forall>h<H.
        \<sigma> (W (t1, t2) f h) \<le> (\<Sum>b<B. \<sigma> (X t1 f h b)) \<and>
        \<sigma> (W (t1, t2) f h) \<le> (\<Sum>b<B. \<sigma> (X t2 f h b)) \<and>
        \<sigma> (W (t1, t2) f h) \<ge> (\<Sum>b<B. \<sigma> (X t1 f h b)) + (\<Sum>b<B. \<sigma> (X t2 f h b)) - 1)) \<and>
     (\<forall>t<T. \<forall>f<F. (\<Sum>h<H. \<Sum>b<B. \<sigma> (X t f h b)) = 1)"
  by (simp add: build_problem_def Let_def boat_constraints_hold team_constraints_hold
      w_constraints_hold participation_constraints_hold)


lemma sum_restrict:
  "(B::nat) \<le> B' \<Longrightarrow> (\<Sum>b<B'. if b < B then g b else 0) = (\<Sum>b<B. (g b :: rat))"
proof -
  assume le: "B \<le> B'"
  then have "{..<B'} \<inter> {b. b < B} = {..<B}" by auto
  then show ?thesis by (simp add: sum.If_cases)
qed

subsection \<open>The objective and the pairing constraints\<close>

lemma combinations2_members:
  "(a, b) \<in> set (combinations2 xs) \<Longrightarrow> a \<in> set xs \<and> b \<in> set xs"
  by (induction xs) auto

lemma distinct_combinations2: "distinct xs \<Longrightarrow> distinct (combinations2 xs)"
proof (induction xs)
  case Nil
  then show ?case by simp
next
  case (Cons x xs)
  then have "distinct (map (Pair x) xs)"
    by (simp add: distinct_map inj_on_def)
  moreover have "set (map (Pair x) xs) \<inter> set (combinations2 xs) = {}"
    using Cons.prems combinations2_members[of x _ xs] by auto
  ultimately show ?case using Cons by simp
qed

lemma objective_value:
  "lp_value \<sigma> (objective (build_problem rw pw F B T H)) =
     (\<Sum>t<T. \<Sum>f<F. \<Sum>h<H. \<Sum>b<B. rw t f h b * \<sigma> (X t f h b)) +
     (\<Sum>p\<in>{(a, b). a < b \<and> b < T}. pw p * (1 - (\<Sum>f<F. \<Sum>h<H. \<sigma> (W p f h))))"
proof -
  have pairs: "sum_list (map g (combinations2 [0..<T])) = (\<Sum>p\<in>{(a, b). a < b \<and> b < T}. g p)"
    for g :: "nat \<times> nat \<Rightarrow> rat"
    using sum_list_distinct_conv_sum_set[of "combinations2 [0..<T]" g]
    by (simp add: distinct_combinations2 set_team_pairs)
  show ?thesis
    by (simp add: build_problem_def Let_def build_objective_def lp_sums comp_def pairs)
qed

lemma unit_sum_iff:
  fixes g :: "nat \<Rightarrow> rat"
  assumes bin: "\<forall>b<n. g b = 0 \<or> g b = 1" and le: "(\<Sum>b<n. g b) \<le> 1"
  shows "(\<Sum>b<n. g b) = 1 \<longleftrightarrow> (\<exists>b<n. g b = 1)"
proof
  assume one: "(\<Sum>b<n. g b) = 1"
  show "\<exists>b<n. g b = 1"
  proof (rule ccontr)
    assume "\<not> (\<exists>b<n. g b = 1)"
    with bin have "\<forall>b<n. g b = 0" by blast
    then have "(\<Sum>b<n. g b) = 0" by simp
    with one show False by simp
  qed
next
  assume "\<exists>b<n. g b = 1"
  then obtain b where b: "b < n" "g b = 1" by blast
  have "g b \<le> (\<Sum>b<n. g b)"
    using bin b by (intro member_le_sum) auto
  with b le show "(\<Sum>b<n. g b) = 1" by simp
qed

lemma feasible_build:
  "feasible (build_problem rw pw F B T H) \<sigma> \<longleftrightarrow>
     ((\<forall>t<T. \<forall>f<F. \<forall>h<H. \<forall>b<B. \<sigma> (X t f h b) = 0 \<or> \<sigma> (X t f h b) = 1) \<and>
      (\<forall>t1 t2. t1 < t2 \<and> t2 < T \<longrightarrow> (\<forall>f<F. \<forall>h<H. \<sigma> (W (t1, t2) f h) = 0 \<or> \<sigma> (W (t1, t2) f h) = 1))) \<and>
     ((\<forall>f<F. \<forall>h<H. \<forall>b<B. (\<Sum>t<T. \<sigma> (X t f h b)) \<le> 1) \<and>
      (\<forall>t<T. \<forall>f<F. \<forall>h<H. (\<Sum>b<B. \<sigma> (X t f h b)) \<le> 1) \<and>
      (\<forall>t1 t2. t1 < t2 \<and> t2 < T \<longrightarrow> (\<forall>f<F. \<forall>h<H.
         \<sigma> (W (t1, t2) f h) \<le> (\<Sum>b<B. \<sigma> (X t1 f h b)) \<and>
         \<sigma> (W (t1, t2) f h) \<le> (\<Sum>b<B. \<sigma> (X t2 f h b)) \<and>
         \<sigma> (W (t1, t2) f h) \<ge> (\<Sum>b<B. \<sigma> (X t1 f h b)) + (\<Sum>b<B. \<sigma> (X t2 f h b)) - 1)) \<and>
      (\<forall>t<T. \<forall>f<F. (\<Sum>h<H. \<Sum>b<B. \<sigma> (X t f h b)) = 1))"
  unfolding feasible_def binaries_all constraints_all ..

lemma feasible_pairing:
  assumes feas: "feasible (build_problem rw pw F B T H) \<sigma>"
    and idx: "t1 < t2" "t2 < T" "f < F" "h < H"
  shows "\<sigma> (W (t1, t2) f h) = 1 \<longleftrightarrow>
           (\<exists>b<B. \<sigma> (X t1 f h b) = 1) \<and> (\<exists>b<B. \<sigma> (X t2 f h b) = 1)"
proof -
  let ?w = "\<sigma> (W (t1, t2) f h)"
  let ?occ = "\<lambda>t. \<Sum>b<B. \<sigma> (X t f h b)"
  from idx have t1: "t1 < T" by simp
  from feas idx have w01: "?w = 0 \<or> ?w = 1"
    by (simp add: feasible_build)
  from feas idx have link: "?w \<le> ?occ t1" "?w \<le> ?occ t2" "?occ t1 + ?occ t2 - 1 \<le> ?w"
    by (simp_all add: feasible_build)
  have occ: "?occ t = 1 \<longleftrightarrow> (\<exists>b<B. \<sigma> (X t f h b) = 1)" and le: "?occ t \<le> 1" if "t < T" for t
  proof -
    from feas that idx show "?occ t \<le> 1" by (simp add: feasible_build)
    moreover from feas that idx have "\<forall>b<B. \<sigma> (X t f h b) = 0 \<or> \<sigma> (X t f h b) = 1"
      by (simp add: feasible_build)
    ultimately show "?occ t = 1 \<longleftrightarrow> (\<exists>b<B. \<sigma> (X t f h b) = 1)"
      by (intro unit_sum_iff) auto
  qed
  have "?w = 1 \<longleftrightarrow> ?occ t1 = 1 \<and> ?occ t2 = 1"
    using w01 link le[OF t1] le[OF idx(2)] by auto
  then show ?thesis
    by (simp add: occ[OF t1] occ[OF idx(2)])
qed


lemma boat_constraints_no_W:
  "nc \<in> set (boat_constraints teams flights heats boats) \<Longrightarrow> \<not> constraint_mentions (W p f h) (snd nc)"
  by (auto simp: boat_constraints_def list_ex_iff)

lemma team_constraints_no_W:
  "nc \<in> set (team_constraints teams flights heats boats) \<Longrightarrow> \<not> constraint_mentions (W p f h) (snd nc)"
  by (auto simp: team_constraints_def list_ex_iff)

lemma participation_constraints_no_W:
  "nc \<in> set (participation_constraints teams flights heats boats) \<Longrightarrow>
     \<not> constraint_mentions (W p f h) (snd nc)"
  by (auto simp: participation_constraints_def list_ex_iff)

lemma linkage_mentions:
  "nc \<in> set (linkage boats q f' h') \<Longrightarrow>
     constraint_mentions (W p f h) (snd nc) \<longleftrightarrow> q = p \<and> f' = f \<and> h' = h"
  by (auto simp: linkage_def list_ex_iff)

lemma w_constraints_mentioning:
  assumes "p \<in> set team_pairs" "f \<in> set flights" "h \<in> set heats"
  shows "{nc \<in> set (w_constraints team_pairs flights heats boats). constraint_mentions (W p f h) (snd nc)} =
           set (linkage boats p f h)"
proof (rule set_eqI, rule iffI)
  fix nc
  assume "nc \<in> {nc \<in> set (w_constraints team_pairs flights heats boats). constraint_mentions (W p f h) (snd nc)}"
  then obtain q f' h' where "nc \<in> set (linkage boats q f' h')" "constraint_mentions (W p f h) (snd nc)"
    by (auto simp: w_constraints_def)
  then show "nc \<in> set (linkage boats p f h)"
    using linkage_mentions[of nc boats q f' h' p f h] by simp
next
  fix nc
  assume nc: "nc \<in> set (linkage boats p f h)"
  then have "constraint_mentions (W p f h) (snd nc)"
    using linkage_mentions[of nc boats p f h p f h] by simp
  moreover from nc assms have "nc \<in> set (w_constraints team_pairs flights heats boats)"
    by (auto simp: w_constraints_def)
  ultimately show "nc \<in> {nc \<in> set (w_constraints team_pairs flights heats boats). constraint_mentions (W p f h) (snd nc)}"
    by simp
qed

lemma constraints_mentioning:
  assumes "t1 < t2" "t2 < T" "f < F" "h < H"
  shows "{nc \<in> set (constraints (build_problem rw pw F B T H)). constraint_mentions (W (t1, t2) f h) (snd nc)} =
           set (linkage [0..<B] (t1, t2) f h)"
proof -
  have "{nc \<in> set (w_constraints (combinations2 [0..<T]) [0..<F] [0..<H] [0..<B]).
            constraint_mentions (W (t1, t2) f h) (snd nc)} = set (linkage [0..<B] (t1, t2) f h)"
    using assms by (intro w_constraints_mentioning) (simp_all add: set_team_pairs)
  then show ?thesis
    using boat_constraints_no_W[of _ "[0..<T]" "[0..<F]" "[0..<H]" "[0..<B]" "(t1, t2)" f h]
      team_constraints_no_W[of _ "[0..<T]" "[0..<F]" "[0..<H]" "[0..<B]" "(t1, t2)" f h]
      participation_constraints_no_W[of _ "[0..<T]" "[0..<F]" "[0..<H]" "[0..<B]" "(t1, t2)" f h]
    by (auto simp: build_problem_def Let_def)
qed

subsection \<open>Adding boats and heats\<close>

lemma widen_X: "widen B H \<sigma> (X t f h b) = (if h < H \<and> b < B then \<sigma> (X t f h b) else 0)"
  by (simp add: widen_def)

lemma widen_W: "widen B H \<sigma> (W p f h) = (if h < H then \<sigma> (W p f h) else 0)"
  by (simp add: widen_def)

lemma widen_boats:
  assumes "B \<le> B'"
  shows "(\<Sum>b<B'. widen B H \<sigma> (X t f h b)) = (if h < H then \<Sum>b<B. \<sigma> (X t f h b) else 0)"
proof (cases "h < H")
  case True
  then have "(\<Sum>b<B'. widen B H \<sigma> (X t f h b)) = (\<Sum>b<B'. if b < B then \<sigma> (X t f h b) else 0)"
    by (simp add: widen_X)
  also have "\<dots> = (\<Sum>b<B. \<sigma> (X t f h b))"
    by (rule sum_restrict[OF assms])
  finally show ?thesis using True by simp
next
  case False
  then show ?thesis by (simp add: widen_X)
qed

lemma widen_teams:
  "(\<Sum>t<T. widen B H \<sigma> (X t f h b)) = (if h < H \<and> b < B then \<Sum>t<T. \<sigma> (X t f h b) else 0)"
  by (auto simp: widen_X)

lemma widen_heats_boats:
  assumes "B \<le> B'" "H \<le> H'"
  shows "(\<Sum>h<H'. \<Sum>b<B'. widen B H \<sigma> (X t f h b)) = (\<Sum>h<H. \<Sum>b<B. \<sigma> (X t f h b))"
proof -
  have "(\<Sum>h<H'. \<Sum>b<B'. widen B H \<sigma> (X t f h b)) =
        (\<Sum>h<H'. if h < H then \<Sum>b<B. \<sigma> (X t f h b) else 0)"
    by (simp add: widen_boats[OF assms(1)])
  also have "\<dots> = (\<Sum>h<H. \<Sum>b<B. \<sigma> (X t f h b))"
    by (rule sum_restrict[OF assms(2)])
  finally show ?thesis .
qed

lemma feasible_widen:
  assumes feas: "feasible (build_problem rw pw F B T H) \<sigma>" and B: "B \<le> B'" and H: "H \<le> H'"
  shows "feasible (build_problem rw' pw' F B' T H') (widen B H \<sigma>)"
proof -
  note f = feas[unfolded feasible_build]
  show ?thesis
    unfolding feasible_build
  proof (intro conjI allI impI)
    fix t f h b assume "t < T" "f < F" "h < H'" "b < B'"
    then show "widen B H \<sigma> (X t f h b) = 0 \<or> widen B H \<sigma> (X t f h b) = 1"
      using f by (simp add: widen_X)
  next
    fix t1 t2 f h assume "t1 < t2 \<and> t2 < T" "f < F" "h < H'"
    then show "widen B H \<sigma> (W (t1, t2) f h) = 0 \<or> widen B H \<sigma> (W (t1, t2) f h) = 1"
      using f by (simp add: widen_W)
  next
    fix f h b assume "f < F" "h < H'" "b < B'"
    then show "(\<Sum>t<T. widen B H \<sigma> (X t f h b)) \<le> 1"
      using f by (simp add: widen_teams)
  next
    fix t f h assume "t < T" "f < F" "h < H'"
    then show "(\<Sum>b<B'. widen B H \<sigma> (X t f h b)) \<le> 1"
      using f by (simp add: widen_boats[OF B])
  next
    fix t1 t2 f h assume "t1 < t2 \<and> t2 < T" "f < F" "h < H'"
    then show "widen B H \<sigma> (W (t1, t2) f h) \<le> (\<Sum>b<B'. widen B H \<sigma> (X t1 f h b))"
      using f by (simp add: widen_boats[OF B] widen_W)
  next
    fix t1 t2 f h assume "t1 < t2 \<and> t2 < T" "f < F" "h < H'"
    then show "widen B H \<sigma> (W (t1, t2) f h) \<le> (\<Sum>b<B'. widen B H \<sigma> (X t2 f h b))"
      using f by (simp add: widen_boats[OF B] widen_W)
  next
    fix t1 t2 f h assume "t1 < t2 \<and> t2 < T" "f < F" "h < H'"
    then show "(\<Sum>b<B'. widen B H \<sigma> (X t1 f h b)) + (\<Sum>b<B'. widen B H \<sigma> (X t2 f h b)) - 1
                 \<le> widen B H \<sigma> (W (t1, t2) f h)"
      using f by (simp add: widen_boats[OF B] widen_W)
  next
    fix t f assume "t < T" "f < F"
    then show "(\<Sum>h<H'. \<Sum>b<B'. widen B H \<sigma> (X t f h b)) = 1"
      using f by (simp add: widen_heats_boats[OF B H])
  qed
qed

subsection \<open>The heat dictionary built by the extraction loops\<close>

lemma assign_boat_keys:
  "fst ` set (assign_boat val teams f h b m) =
     fst ` set m \<union> (if \<exists>t\<in>set teams. val (X t f h b) = Some 1 then {b} else {})"
  unfolding assign_boat_def
  by (induction teams arbitrary: m) (auto simp: AList.dom_update)

lemma assign_boat_distinct:
  "distinct (map fst m) \<Longrightarrow> distinct (map fst (assign_boat val teams f h b m))"
  unfolding assign_boat_def
  by (induction teams arbitrary: m) (simp_all add: AList.distinct_update)

lemma assign_boat_other:
  "b' \<noteq> b \<Longrightarrow> map_of (assign_boat val teams f h b m) b' = map_of m b'"
  unfolding assign_boat_def
  by (induction teams arbitrary: m) (simp_all add: AList.update_conv')

lemma assign_boat_same:
  "map_of (assign_boat val teams f h b m) b = Some c \<Longrightarrow>
     (\<exists>t\<in>set teams. c = t + 1 \<and> val (X t f h b) = Some 1) \<or> map_of m b = Some c"
  unfolding assign_boat_def
proof (induction teams arbitrary: m)
  case Nil
  then show ?case by simp
next
  case (Cons t teams)
  show ?case
  proof (cases "val (X t f h b) = Some 1")
    case True
    with Cons.prems Cons.IH[of "AList.update b (t + 1) m"] show ?thesis
      by (auto simp: AList.update_conv')
  next
    case False
    with Cons.prems Cons.IH[of m] show ?thesis by auto
  qed
qed

lemma fold_assign_boat_keys:
  "fst ` set (fold (assign_boat val teams f h) boats m) =
     fst ` set m \<union> {b \<in> set boats. \<exists>t\<in>set teams. val (X t f h b) = Some 1}"
  by (induction boats arbitrary: m) (auto simp: assign_boat_keys split: if_splits)

lemma fold_assign_boat_distinct:
  "distinct (map fst m) \<Longrightarrow> distinct (map fst (fold (assign_boat val teams f h) boats m))"
  by (induction boats arbitrary: m) (simp_all add: assign_boat_distinct)

lemma fold_assign_boat_lookup:
  "map_of (fold (assign_boat val teams f h) boats m) b = Some c \<Longrightarrow>
     (b \<in> set boats \<and> (\<exists>t\<in>set teams. c = t + 1 \<and> val (X t f h b) = Some 1)) \<or> map_of m b = Some c"
proof (induction boats arbitrary: m)
  case Nil
  then show ?case by simp
next
  case (Cons b' boats)
  from Cons.prems have "map_of (fold (assign_boat val teams f h) boats (assign_boat val teams f h b' m)) b = Some c"
    by simp
  from Cons.IH[OF this] show ?case
  proof
    assume "b \<in> set boats \<and> (\<exists>t\<in>set teams. c = t + 1 \<and> val (X t f h b) = Some 1)"
    then show ?thesis by auto
  next
    assume m: "map_of (assign_boat val teams f h b' m) b = Some c"
    show ?thesis
    proof (cases "b = b'")
      case True
      with m assign_boat_same[of val teams f h b' m c] show ?thesis by auto
    next
      case False
      with m show ?thesis by (simp add: assign_boat_other)
    qed
  qed
qed

lemma heat_schedule_distinct: "distinct (map fst (heat_schedule val teams boats f h))"
  unfolding heat_schedule_def by (rule fold_assign_boat_distinct) simp

lemma heat_schedule_keys:
  "fst ` set (heat_schedule val teams boats f h) =
     {b \<in> set boats. \<exists>t\<in>set teams. val (X t f h b) = Some 1}"
  unfolding heat_schedule_def by (simp add: fold_assign_boat_keys)

lemma heat_schedule_lookup:
  "map_of (heat_schedule val teams boats f h) b = Some c \<Longrightarrow>
     b \<in> set boats \<and> (\<exists>t\<in>set teams. c = t + 1 \<and> val (X t f h b) = Some 1)"
  unfolding heat_schedule_def using fold_assign_boat_lookup[of val teams f h boats "[]" b c] by simp

lemma heat_schedule_entry:
  "(b, c) \<in> set (heat_schedule val teams boats f h) \<Longrightarrow>
     b \<in> set boats \<and> (\<exists>t\<in>set teams. c = t + 1 \<and> val (X t f h b) = Some 1)"
  using heat_schedule_lookup[of val teams boats f h b c] heat_schedule_distinct[of val teams boats f h]
  by simp

lemma extract_schedule_length:
  "length (extract_schedule val F B T H) = F"
  by (simp add: extract_schedule_def)

lemma extract_schedule_nth:
  "f < F \<Longrightarrow> h < H \<Longrightarrow> extract_schedule val F B T H ! f ! h = heat_schedule val [0..<T] [0..<B] f h"
  by (simp add: extract_schedule_def)

lemma extract_schedule_nth_length:
  "f < F \<Longrightarrow> length (extract_schedule val F B T H ! f) = H"
  by (simp add: extract_schedule_def)

lemma distinct_keys_filter:
  "distinct (map fst m) \<Longrightarrow> length (filter (\<lambda>entry. fst entry = b) m) \<le> 1"
proof (induction m)
  case Nil
  then show ?case by simp
next
  case (Cons e m)
  show ?case
  proof (cases "fst e = b")
    case True
    from Cons.prems have "fst e \<notin> fst ` set m" by simp
    with True have "\<forall>entry\<in>set m. fst entry \<noteq> b"
      by (metis imageI)
    then have "filter (\<lambda>entry. fst entry = b) m = []"
      by (simp add: filter_empty_conv)
    with True show ?thesis by simp
  next
    case False
    with Cons show ?thesis by simp
  qed
qed

lemma generate_schedule_Some:
  "generate_schedule e F B T H = Some schedule \<Longrightarrow>
     schedule = extract_schedule (varValue (solve e F B T H)) F B T H"
  by (auto simp: generate_schedule_def Let_def split: if_splits)

lemma extract_schedule_heat:
  assumes "flight \<in> set (extract_schedule val F B T H)" and "heat \<in> set flight"
  shows "\<exists>f<F. \<exists>h<H. heat = heat_schedule val [0..<T] [0..<B] f h"
  using assms by (fastforce simp: extract_schedule_def)

subsection \<open>What a solved assignment guarantees\<close>

lemma feasible_relaxed: "feasible p \<sigma> \<Longrightarrow> relaxed_feasible p \<sigma>"
  by (auto simp: feasible_def relaxed_feasible_def list_all_iff)

lemma solved_relaxed: "solved p r \<Longrightarrow> relaxed_solved p r"
  by (simp add: solved_def relaxed_solved_def feasible_relaxed)


lemma at_most_one_unit:
  fixes g :: "nat \<Rightarrow> rat"
  assumes le: "(\<Sum>k<n. g k) \<le> 1" and nonneg: "\<forall>k<n. 0 \<le> g k"
    and i: "i < n" "g i = 1" and j: "j < n" "g j = 1"
  shows "i = j"
proof (rule ccontr)
  assume ne: "i \<noteq> j"
  have "sum g {i, j} \<le> sum g {..<n}"
    using i j nonneg by (intro sum_mono2) auto
  moreover have "sum g {i, j} = 2"
    using ne i j by simp
  ultimately show False using le by simp
qed

lemma relaxed_solved_build:
  assumes "relaxed_solved (build_problem rw pw F B T H) r"
  shows "\<forall>t<T. \<forall>f<F. \<forall>h<H. \<forall>b<B. 0 \<le> assignment r (X t f h b)"
    and "\<forall>f<F. \<forall>h<H. \<forall>b<B. (\<Sum>t<T. assignment r (X t f h b)) \<le> 1"
    and "\<forall>t<T. \<forall>f<F. \<forall>h<H. (\<Sum>b<B. assignment r (X t f h b)) \<le> 1"
  using assms
  by (simp_all add: relaxed_solved_def relaxed_feasible_def binaries_all constraints_all)

lemma assignment_Some: "varValue r v = Some q \<Longrightarrow> assignment r v = q"
  by (simp add: assignment_def)

lemma one_team_per_boat:
  assumes rs: "relaxed_solved (build_problem rw pw F B T H) r"
    and "f < F" "h < H" "b < B"
    and "t < T" "varValue r (X t f h b) = Some 1"
    and "t' < T" "varValue r (X t' f h b) = Some 1"
  shows "t = t'"
proof (rule at_most_one_unit[where g = "\<lambda>t. assignment r (X t f h b)" and n = T])
  show "(\<Sum>k<T. assignment r (X k f h b)) \<le> 1"
    using relaxed_solved_build(2)[OF rs] assms(2-4) by simp
  show "\<forall>k<T. 0 \<le> assignment r (X k f h b)"
    using relaxed_solved_build(1)[OF rs] assms(2-4) by simp
qed (use assms in \<open>simp_all add: assignment_Some\<close>)


lemma heat_schedule_entries:
  assumes rs: "relaxed_solved (build_problem rw pw F B T H) r" and f: "f < F" and h: "h < H"
  shows "(b, c) \<in> set (heat_schedule (varValue r) [0..<T] [0..<B] f h) \<longleftrightarrow>
           b < B \<and> (\<exists>t<T. c = t + 1 \<and> varValue r (X t f h b) = Some 1)"
proof
  assume "(b, c) \<in> set (heat_schedule (varValue r) [0..<T] [0..<B] f h)"
  from heat_schedule_entry[OF this]
  show "b < B \<and> (\<exists>t<T. c = t + 1 \<and> varValue r (X t f h b) = Some 1)" by auto
next
  assume "b < B \<and> (\<exists>t<T. c = t + 1 \<and> varValue r (X t f h b) = Some 1)"
  then obtain t where b: "b < B" and t: "t < T" "c = t + 1" "varValue r (X t f h b) = Some 1"
    by blast
  then have "b \<in> fst ` set (heat_schedule (varValue r) [0..<T] [0..<B] f h)"
    by (auto simp: heat_schedule_keys)
  then obtain c' where c': "(b, c') \<in> set (heat_schedule (varValue r) [0..<T] [0..<B] f h)"
    by auto
  from heat_schedule_entry[OF this]
  obtain t' where t': "t' < T" "c' = t' + 1" "varValue r (X t' f h b) = Some 1" by auto
  have "t = t'"
    by (rule one_team_per_boat[OF rs f h b t(1,3) t'(1,3)])
  with c' t t' show "(b, c) \<in> set (heat_schedule (varValue r) [0..<T] [0..<B] f h)" by simp
qed

lemma card_units:
  fixes g :: "nat \<Rightarrow> rat"
  assumes "\<forall>b<n. g b = 0 \<or> g b = 1"
  shows "rat_of_nat (card {b. b < n \<and> g b = 1}) = (\<Sum>b<n. g b)"
proof -
  have "(\<Sum>b<n. g b) = (\<Sum>b<n. if g b = 1 then 1 else 0)"
    using assms by (intro sum.cong) auto
  also have "\<dots> = rat_of_nat (card ({..<n} \<inter> {b. g b = 1}))"
    by (simp add: sum.If_cases)
  also have "{..<n} \<inter> {b. g b = 1} = {b. b < n \<and> g b = 1}" by auto
  finally show ?thesis by simp
qed

lemma solved_values:
  assumes "solved (build_problem rw pw F B T H) r" "t < T" "f < F" "h < H" "b < B"
  shows "varValue r (X t f h b) = Some 1 \<longleftrightarrow> assignment r (X t f h b) = 1"
    and "assignment r (X t f h b) = 0 \<or> assignment r (X t f h b) = 1"
proof -
  from assms have "varValue r (X t f h b) \<noteq> None"
    by (simp add: solved_def binaries_all)
  then show "varValue r (X t f h b) = Some 1 \<longleftrightarrow> assignment r (X t f h b) = 1"
    by (auto simp: assignment_def)
  from assms show "assignment r (X t f h b) = 0 \<or> assignment r (X t f h b) = 1"
    by (simp add: solved_def feasible_build)
qed

lemma heat_count:
  assumes s: "solved (build_problem rw pw F B T H) r" and t: "t < T" and f: "f < F" and h: "h < H"
  shows "rat_of_nat (length (filter (\<lambda>e. snd e = t + 1) (heat_schedule (varValue r) [0..<T] [0..<B] f h))) =
           (\<Sum>b<B. assignment r (X t f h b))"
proof -
  let ?heat = "heat_schedule (varValue r) [0..<T] [0..<B] f h"
  have rs: "relaxed_solved (build_problem rw pw F B T H) r"
    by (rule solved_relaxed[OF s])
  have "distinct ?heat"
    using heat_schedule_distinct[of "varValue r" "[0..<T]" "[0..<B]" f h] by (rule distinct_map[THEN iffD1, THEN conjunct1])
  then have "length (filter (\<lambda>e. snd e = t + 1) ?heat) = card ({e. snd e = t + 1} \<inter> set ?heat)"
    by (rule distinct_length_filter)
  also have "{e. snd e = t + 1} \<inter> set ?heat = (\<lambda>b. (b, t + 1)) ` {b. b < B \<and> assignment r (X t f h b) = 1}"
    using t solved_values(1)[OF s t f h]
    by (auto simp: heat_schedule_entries[OF rs f h])
  also have "card \<dots> = card {b. b < B \<and> assignment r (X t f h b) = 1}"
    by (rule card_image) (simp add: inj_on_def)
  finally have "rat_of_nat (length (filter (\<lambda>e. snd e = t + 1) ?heat)) =
      rat_of_nat (card {b. b < B \<and> assignment r (X t f h b) = 1})" by simp
  also have "\<dots> = (\<Sum>b<B. assignment r (X t f h b))"
    using solved_values(2)[OF s t f h] by (intro card_units) simp
  finally show ?thesis .
qed

text \<open>
  When the solver's values are an integer-feasible assignment of the model, every competitor
  appears exactly once in the heat mappings of every round of the returned schedule.
\<close>

lemma participation_when_solved:
  assumes gen: "generate_schedule e F B T H = Some schedule"
    and s: "solved (build_problem (random_weights e) (penalty_w e) F B T H) (solve e F B T H)"
    and t: "t < T" and f: "f < F"
  shows "appearances (t + 1) (schedule ! f) = 1"
proof -
  let ?r = "solve e F B T H"
  have fl: "schedule ! f = map (heat_schedule (varValue ?r) [0..<T] [0..<B] f) [0..<H]"
    using generate_schedule_Some[OF gen] f by (simp add: extract_schedule_def)
  have "appearances (t + 1) (schedule ! f) =
          (\<Sum>h<H. length (filter (\<lambda>e. snd e = t + 1) (heat_schedule (varValue ?r) [0..<T] [0..<B] f h)))"
    by (simp add: appearances_def fl comp_def interv_sum_list_conv_sum_set_nat lessThan_atLeast0)
  then have "rat_of_nat (appearances (t + 1) (schedule ! f)) =
          (\<Sum>h<H. rat_of_nat (length (filter (\<lambda>e. snd e = t + 1) (heat_schedule (varValue ?r) [0..<T] [0..<B] f h))))"
    by simp
  also have "\<dots> = (\<Sum>h<H. \<Sum>b<B. assignment ?r (X t f h b))"
    by (intro sum.cong refl heat_count[OF s t f]) simp
  also have "\<dots> = 1"
    using s t f by (simp add: solved_def feasible_build)
  finally show ?thesis by simp
qed

section \<open>The model\<close>

text \<open>
  C5. The objective that \<open>generate_schedule\<close> builds evaluates, under every assignment,
  to the sum over all (competitor, round, sub-round, slot) of random weight times \<open>x\<close>, plus
  the sum over all unordered competitor pairs of the pair's penalty times one minus the sum
  of the pair's \<open>w\<close> over all (round, sub-round); and the problem minimises it.
\<close>

theorem objective_composition:
  "lp_value \<sigma> (objective (build_problem rw pw F B T H)) =
     (\<Sum>t<T. \<Sum>f<F. \<Sum>h<H. \<Sum>b<B. rw t f h b * \<sigma> (X t f h b)) +
     (\<Sum>p\<in>{(a, b). a < b \<and> b < T}. pw p * (1 - (\<Sum>f<F. \<Sum>h<H. \<sigma> (W p f h)))) \<and>
   direction (build_problem rw pw F B T H) = LpMinimize"
  by (simp add: objective_value) (simp add: build_problem_def Let_def)

text \<open>
  C4. For every pair \<open>t1 < t2\<close> of competitors and every (round, sub-round), the
  constraints of the model that mention \<open>w[(t1, t2)][f][h]\<close> are exactly the three linkage
  inequalities \<open>w \<le> occ t1\<close>, \<open>w \<le> occ t2\<close> and \<open>w \<ge> occ t1 + occ t2 - 1\<close>, with
  \<open>occ t\<close> the sum of \<open>x[t][f][h][b]\<close> over the slots. In every feasible assignment, and so
  in every optimal one, \<open>w\<close> is 1 exactly when both competitors occupy a slot there.
\<close>

theorem pairing_linkage:
  assumes "t1 < t2" "t2 < T" "f < F" "h < H"
  shows "{nc \<in> set (constraints (build_problem rw pw F B T H)).
            constraint_mentions (W (t1, t2) f h) (snd nc)} =
         {(W1_Flight_Heat t1 t2 f h,
             Constraint (Var (W (t1, t2) f h)) LE (lpSum [Var (X t1 f h b). b \<leftarrow> [0..<B]])),
          (W2_Flight_Heat t1 t2 f h,
             Constraint (Var (W (t1, t2) f h)) LE (lpSum [Var (X t2 f h b). b \<leftarrow> [0..<B]])),
          (W3_Flight_Heat t1 t2 f h,
             Constraint (Var (W (t1, t2) f h)) GE
               (Sub (Add (lpSum [Var (X t1 f h b). b \<leftarrow> [0..<B]])
                         (lpSum [Var (X t2 f h b). b \<leftarrow> [0..<B]]))
                    (Const 1)))} \<and>
         (\<forall>\<sigma>. feasible (build_problem rw pw F B T H) \<sigma> \<longrightarrow>
            (\<sigma> (W (t1, t2) f h) = 1 \<longleftrightarrow>
               (\<exists>b<B. \<sigma> (X t1 f h b) = 1) \<and> (\<exists>b<B. \<sigma> (X t2 f h b) = 1))) \<and>
         (\<forall>\<sigma>. optimal (build_problem rw pw F B T H) \<sigma> \<longrightarrow>
            (\<sigma> (W (t1, t2) f h) = 1 \<longleftrightarrow>
               (\<exists>b<B. \<sigma> (X t1 f h b) = 1) \<and> (\<exists>b<B. \<sigma> (X t2 f h b) = 1)))"
proof (intro conjI allI impI)
  show "{nc \<in> set (constraints (build_problem rw pw F B T H)).
            constraint_mentions (W (t1, t2) f h) (snd nc)} =
         {(W1_Flight_Heat t1 t2 f h,
             Constraint (Var (W (t1, t2) f h)) LE (lpSum [Var (X t1 f h b). b \<leftarrow> [0..<B]])),
          (W2_Flight_Heat t1 t2 f h,
             Constraint (Var (W (t1, t2) f h)) LE (lpSum [Var (X t2 f h b). b \<leftarrow> [0..<B]])),
          (W3_Flight_Heat t1 t2 f h,
             Constraint (Var (W (t1, t2) f h)) GE
               (Sub (Add (lpSum [Var (X t1 f h b). b \<leftarrow> [0..<B]])
                         (lpSum [Var (X t2 f h b). b \<leftarrow> [0..<B]]))
                    (Const 1)))}"
    unfolding constraints_mentioning[OF assms] by (simp add: linkage_def)
next
  fix \<sigma>
  assume "feasible (build_problem rw pw F B T H) \<sigma>"
  then show "\<sigma> (W (t1, t2) f h) = 1 \<longleftrightarrow>
               (\<exists>b<B. \<sigma> (X t1 f h b) = 1) \<and> (\<exists>b<B. \<sigma> (X t2 f h b) = 1)"
    by (rule feasible_pairing) (rule assms)+
next
  fix \<sigma>
  assume "optimal (build_problem rw pw F B T H) \<sigma>"
  then have "feasible (build_problem rw pw F B T H) \<sigma>"
    by (simp add: optimal_def)
  then show "\<sigma> (W (t1, t2) f h) = 1 \<longleftrightarrow>
               (\<exists>b<B. \<sigma> (X t1 f h b) = 1) \<and> (\<exists>b<B. \<sigma> (X t2 f h b) = 1)"
    by (rule feasible_pairing) (rule assms)+
qed


theorem pairing_linkage_witness:
  "optimal (build_problem (\<lambda>t f h b. 0) (\<lambda>p. 1) 1 2 2 1) (assignment optimal_result) \<and>
   assignment optimal_result (W (0, 1) 0 0) = 1 \<and>
   (\<exists>b<2. assignment optimal_result (X 0 0 0 b) = 1) \<and>
   (\<exists>b<2. assignment optimal_result (X 1 0 0 b) = 1)"
proof -
  let ?p = "build_problem (\<lambda>t f h b. 0) (\<lambda>p. 1) 1 2 2 1"
  have obj: "lp_value \<sigma> (objective ?p) = 1 - \<sigma> (W (0, 1) 0 0)" for \<sigma>
    by (simp add: build_problem_def build_objective_def Let_def numeral_2_eq_2)
  have feas: "feasible ?p (assignment optimal_result)"
    by code_simp
  have w: "assignment optimal_result (W (0, 1) 0 0) = 1"
    by (simp add: assignment_def optimal_result_def)
  have bound: "\<sigma> (W (0, 1) 0 0) \<le> 1" if "feasible ?p \<sigma>" for \<sigma>
    using that by (auto simp: feasible_build)
  have dir: "direction ?p = LpMinimize"
    by (simp add: build_problem_def Let_def)
  have opt: "optimal ?p (assignment optimal_result)"
    unfolding optimal_def
  proof (intro conjI allI impI)
    show "feasible ?p (assignment optimal_result)" by (rule feas)
  next
    fix \<sigma>'
    assume "feasible ?p \<sigma>'"
    from bound[OF this] w
    show "case direction ?p of
            LpMinimize \<Rightarrow> lp_value (assignment optimal_result) (objective ?p) \<le> lp_value \<sigma>' (objective ?p)
          | LpMaximize \<Rightarrow> lp_value \<sigma>' (objective ?p) \<le> lp_value (assignment optimal_result) (objective ?p)"
      unfolding dir obj by simp
  qed
  have idx: "(0 :: nat) < 1" "(1 :: nat) < 2" "(0 :: nat) < 1" by simp_all
  from pairing_linkage [OF idx(1) idx(2) idx(3) idx(3), of "\<lambda>t f h b. 0" "\<lambda>p. 1" 2] opt
  have "assignment optimal_result (W (0, 1) 0 0) = 1 \<longleftrightarrow>
          (\<exists>b<2. assignment optimal_result (X 0 0 0 b) = 1) \<and>
          (\<exists>b<2. assignment optimal_result (X 1 0 0 b) = 1)"
    by blast
  with w opt show ?thesis by blast
qed

section \<open>Properties of the returned schedule\<close>

text \<open>
  C1. The claim is that in every returned schedule every competitor appears exactly once
  across the heat mappings of every round. That holds when the solver's values are a
  feasible assignment (\<open>participation_when_solved\<close> above). It fails for the schedules
  returned on status \<open>Not Solved\<close>: with two teams, two boats, one flight and one heat, and
  the continuous relaxation left in the variables, the function returns one round whose
  heat mapping is empty, so competitors 1 and 2 appear zero times.
\<close>

theorem timeout_schedule_leaves_competitors_out:
  "status relaxation_result = Not_Solved \<and>
   generate_schedule (fixed_env relaxation_result) 1 2 2 1 = Some [[[]]] \<and>
   appearances 1 ([[[]]] ! 0) = 0 \<and> appearances 2 ([[[]]] ! 0) = 0"
  by code_simp


text \<open>
  C2. In every schedule that \<open>generate_schedule\<close> returns, every heat mapping of every
  round holds at most one entry, hence at most one competitor, for each slot key.
  This needs nothing from the solver: the mapping is a dictionary.
\<close>

theorem slot_exclusive:
  assumes "generate_schedule e F B T H = Some schedule"
    and "flight \<in> set schedule" and "heat \<in> set flight"
  shows "length (filter (\<lambda>entry. fst entry = b) heat) \<le> 1"
proof -
  from assms obtain f h where "heat = heat_schedule (varValue (solve e F B T H)) [0..<T] [0..<B] f h"
    using extract_schedule_heat generate_schedule_Some by blast
  then show ?thesis
    by (metis distinct_keys_filter heat_schedule_distinct)
qed

theorem slot_exclusive_witness:
  "generate_schedule (fixed_env optimal_result) 1 2 2 1 = Some [[[(0, 2), (1, 1)]]] \<and>
   length (filter (\<lambda>entry. fst entry = 0) [(0 :: nat, 2 :: nat), (1, 1)]) \<le> 1"
proof -
  have g: "generate_schedule (fixed_env optimal_result) 1 2 2 1 = Some [[[(0, 2), (1, 1)]]]"
    by code_simp
  have "length (filter (\<lambda>entry. fst entry = 0) [(0 :: nat, 2 :: nat), (1, 1)]) \<le> 1"
    by (rule slot_exclusive [OF g, of "[[(0, 2), (1, 1)]]"]) simp_all
  with g show ?thesis by simp
qed



text \<open>
  C9. The extractor: a returned schedule has one entry per round, in round order, each with
  one heat mapping per sub-round, in sub-round order. The keys of the mapping of round \<open>f\<close>
  and sub-round \<open>h\<close> are exactly the slots \<open>b\<close> for which some competitor's variable
  \<open>x[t][f][h][b]\<close> evaluates to 1 (a slot with no such competitor has no entry), and the
  value under a key is \<open>t + 1\<close> for a competitor \<open>t\<close> whose variable is 1 there. When
  the values satisfy the constraints, that competitor is the only one.
\<close>

theorem extractor_postcondition:
  assumes gen: "generate_schedule e F B T H = Some schedule"
  shows "length schedule = F \<and>
    (\<forall>f<F. length (schedule ! f) = H \<and>
      (\<forall>h<H.
         (\<forall>b. b \<in> fst ` set (schedule ! f ! h) \<longleftrightarrow>
                b < B \<and> (\<exists>t<T. varValue (solve e F B T H) (X t f h b) = Some 1)) \<and>
         (\<forall>b c. map_of (schedule ! f ! h) b = Some c \<longrightarrow>
                (\<exists>t<T. c = t + 1 \<and> varValue (solve e F B T H) (X t f h b) = Some 1)) \<and>
         (relaxed_solved (build_problem (random_weights e) (penalty_w e) F B T H) (solve e F B T H) \<longrightarrow>
            (\<forall>b t. b < B \<and> t < T \<and> varValue (solve e F B T H) (X t f h b) = Some 1 \<longrightarrow>
                map_of (schedule ! f ! h) b = Some (t + 1)))))"
proof -
  let ?r = "solve e F B T H"
  let ?p = "build_problem (random_weights e) (penalty_w e) F B T H"
  have sch: "schedule = extract_schedule (varValue ?r) F B T H"
    by (rule generate_schedule_Some[OF gen])
  have keys: "b \<in> fst ` set (schedule ! f ! h) \<longleftrightarrow>
                b < B \<and> (\<exists>t<T. varValue ?r (X t f h b) = Some 1)" if "f < F" "h < H" for f h b
    using that by (auto simp: sch extract_schedule_nth heat_schedule_keys)
  have look: "\<exists>t<T. c = t + 1 \<and> varValue ?r (X t f h b) = Some 1"
    if "f < F" "h < H" "map_of (schedule ! f ! h) b = Some c" for f h b c
    using that heat_schedule_lookup[of "varValue ?r" "[0..<T]" "[0..<B]" f h b c]
    by (auto simp: sch extract_schedule_nth)
  have uniq: "map_of (schedule ! f ! h) b = Some (t + 1)"
    if "f < F" "h < H" and rs: "relaxed_solved ?p ?r"
      and "b < B" "t < T" "varValue ?r (X t f h b) = Some 1" for f h b t
  proof -
    from that keys[of f h b] have "b \<in> fst ` set (schedule ! f ! h)" by blast
    then obtain c where c: "map_of (schedule ! f ! h) b = Some c"
      by (metis domIff dom_map_of_conv_image_fst not_Some_eq)
    from look[OF that(1,2) c] obtain t' where t': "t' < T" "c = t' + 1" "varValue ?r (X t' f h b) = Some 1"
      by blast
    have "t = t'"
      by (rule one_team_per_boat[OF rs that(1,2,4,5,6) t'(1,3)])
    with c t' show ?thesis by simp
  qed
  show ?thesis
    using keys look uniq by (simp add: sch extract_schedule_length extract_schedule_nth_length)
qed


theorem extractor_postcondition_witness:
  "generate_schedule (fixed_env optimal_result) 1 2 2 1 = Some [[[(0, 2), (1, 1)]]] \<and>
   (\<exists>t<2. (2 :: nat) = t + 1 \<and>
      varValue (solve (fixed_env optimal_result) 1 2 2 1) (X t 0 0 0) = Some 1) \<and>
   (1 :: nat) \<in> fst ` set ([[[(0 :: nat, 2 :: nat), (1, 1)]]] ! 0 ! 0)"
proof -
  have g: "generate_schedule (fixed_env optimal_result) 1 2 2 1 = Some [[[(0, 2), (1, 1)]]]"
    by code_simp
  note post = extractor_postcondition [OF g]
  then have "\<forall>b c. map_of ([[[(0 :: nat, 2 :: nat), (1, 1)]]] ! 0 ! 0) b = Some c \<longrightarrow>
      (\<exists>t<2. c = t + 1 \<and> varValue (solve (fixed_env optimal_result) 1 2 2 1) (X t 0 0 b) = Some 1)"
    by simp
  from this [rule_format, of 0 2]
  have "\<exists>t<2. (2 :: nat) = t + 1 \<and>
      varValue (solve (fixed_env optimal_result) 1 2 2 1) (X t 0 0 0) = Some 1"
    by simp
  with g show ?thesis by simp
qed

section \<open>Solver statuses\<close>

text \<open>
  C6. The claim is that a run which reaches its time limit without an integer-feasible
  incumbent gives the no-solution signal, like \<open>Infeasible\<close>, \<open>Unbounded\<close> and
  \<open>Undefined\<close>. The status of such a run is \<open>Not Solved\<close>, which the test of line 80
  does not list: on two teams, two boats, one flight and one heat, with the values of the
  continuous relaxation left in the variables, the function returns a schedule whose only
  heat mapping is empty instead of \<open>None\<close>.
\<close>

theorem timeout_without_incumbent_accepted:
  "status relaxation_result = Not_Solved \<and>
   relaxed_solved (build_problem (\<lambda>t f h b. 0) (\<lambda>p. 0) 1 2 2 1) relaxation_result \<and>
   generate_schedule (fixed_env relaxation_result) 1 2 2 1 = Some [[[]]]"
  by code_simp



section \<open>Capacity\<close>



text \<open>
  C8. Feasibility is monotone in capacity: when the constraint set for
  (\<open>num_flights\<close>, \<open>num_boats\<close>, \<open>num_teams\<close>, \<open>num_heats\<close>) admits a feasible assignment,
  so does the one with more boats, with more heats, or both, all else fixed (the weights
  play no part in feasibility).
\<close>

theorem feasibility_monotone:
  assumes "\<exists>\<sigma>. feasible (build_problem rw pw F B T H) \<sigma>" and "B \<le> B'" and "H \<le> H'"
  shows "\<exists>\<sigma>'. feasible (build_problem rw' pw' F B' T H') \<sigma>'"
  using assms feasible_widen by blast

theorem feasibility_monotone_witness:
  "(\<exists>\<sigma>. feasible (build_problem (\<lambda>t f h b. 1 / 4) (\<lambda>p. 1 / 2) 1 2 2 1) \<sigma>) \<and>
   (\<exists>\<sigma>'. feasible (build_problem (\<lambda>t f h b. 1 / 4) (\<lambda>p. 1 / 2) 1 3 2 1) \<sigma>') \<and>
   (\<exists>\<sigma>'. feasible (build_problem (\<lambda>t f h b. 1 / 4) (\<lambda>p. 1 / 2) 1 2 2 2) \<sigma>')"
proof -
  have "feasible (build_problem (\<lambda>t f h b. 1 / 4) (\<lambda>p. 1 / 2) 1 2 2 1) (assignment optimal_result)"
    by code_simp
  then have ex: "\<exists>\<sigma>. feasible (build_problem (\<lambda>t f h b. 1 / 4) (\<lambda>p. 1 / 2) 1 2 2 1) \<sigma>"
    by blast
  have b: "(2 :: nat) \<le> 3" and h: "(1 :: nat) \<le> 2" and r: "(2 :: nat) \<le> 2" "(1 :: nat) \<le> 1"
    by simp_all
  from feasibility_monotone [OF ex b r(2)] feasibility_monotone [OF ex r(1) h] ex
  show ?thesis by blast
qed

end
